theory Spec2Isabelle
  imports Main "HOL-Library.AList"
begin

section \<open>Go values as seen through reflection\<close>

text \<open>
  The traversal engine of \<^verbatim>\<open>markstruct.go\<close> works on \<^verbatim>\<open>reflect.Value\<close>s. The model
  keeps what the engine looks at: the kind of a value, its contents, and the permission
  bits that decide \<^verbatim>\<open>CanSet\<close>. A value owns what it points to: values are trees, so no
  two pointers, slices or maps share storage and there are no cycles.
\<close>

datatype kind = Invalid | Ptr | Slice | Array | Map | Struct | String | OtherKind

text \<open>
  A struct tag in its conventional form: the \<^verbatim>\<open>key:"value"\<close> pairs in the order written.
\<close>

type_synonym StructTag = "(string \<times> string) list"

record StructField =
  Exported :: bool
  Anonymous :: bool
  Tag :: StructTag

datatype mapkey = IntKey int | StringKey string

text \<open>
  The element type of a map whose element kind is \<^verbatim>\<open>String\<close>: the predeclared type
  \<^verbatim>\<open>string\<close>, or a defined type such as \<^verbatim>\<open>type HTML string\<close>.
\<close>

datatype strtype = PredeclaredString | DefinedString

text \<open>
  \<open>SliceV []\<close> stands for the nil and the empty slice, \<open>StringMapV t []\<close> for the nil and
  the empty map: the engine only takes their length and their keys. \<open>OtherMapV\<close> is a
  map whose element kind is not \<^verbatim>\<open>String\<close>, \<open>OtherV\<close> a value of any kind the engine
  has no case for (bool, the numeric kinds, interface, chan, func).
\<close>

datatype val =
    StringV string
  | PtrV "val option"
  | SliceV "val list"
  | ArrayV "val list"
  | StringMapV strtype "(mapkey \<times> string) list"
  | OtherMapV
  | StructV "(StructField \<times> val) list"
  | OtherV

record flag =
  flagAddr :: bool
  flagStickyRO :: bool
  flagEmbedRO :: bool

datatype Value = ZeroValue | Val flag val

definition flagRO :: "flag \<Rightarrow> bool" where
  "flagRO fl = (flagStickyRO fl \<or> flagEmbedRO fl)"

text \<open>\<^verbatim>\<open>flag.ro\<close>: a read-only value hands \<^verbatim>\<open>flagStickyRO\<close> on.\<close>

definition ro :: "flag \<Rightarrow> bool" where
  "ro fl = flagRO fl"

fun Kind :: "Value \<Rightarrow> kind" where
  "Kind ZeroValue = Invalid"
| "Kind (Val fl (StringV s)) = String"
| "Kind (Val fl (PtrV p)) = Ptr"
| "Kind (Val fl (SliceV xs)) = Slice"
| "Kind (Val fl (ArrayV xs)) = Array"
| "Kind (Val fl (StringMapV t m)) = Map"
| "Kind (Val fl OtherMapV) = Map"
| "Kind (Val fl (StructV fs)) = Struct"
| "Kind (Val fl OtherV) = OtherKind"

fun IsValid :: "Value \<Rightarrow> bool" where
  "IsValid ZeroValue = False"
| "IsValid (Val fl x) = True"

text \<open>\<^verbatim>\<open>CanSet\<close>: addressable and not obtained through an unexported field.\<close>

fun CanSet :: "Value \<Rightarrow> bool" where
  "CanSet ZeroValue = False"
| "CanSet (Val fl x) = (flagAddr fl \<and> \<not> flagRO fl)"

text \<open>
  \<^verbatim>\<open>Elem\<close> of a pointer: the zero Value for nil, else the addressable pointee, which
  keeps both read-only bits. The engine calls \<^verbatim>\<open>Elem\<close> on pointers only.
\<close>

fun Elem :: "Value \<Rightarrow> Value" where
  "Elem (Val fl (PtrV (Some x))) = Val (fl\<lparr>flagAddr := True\<rparr>) x"
| "Elem v = ZeroValue"

text \<open>
  The flags of \<^verbatim>\<open>v.Field(i)\<close>: addressability and \<^verbatim>\<open>flagStickyRO\<close> are inherited,
  \<^verbatim>\<open>flagEmbedRO\<close> is cleared, and an unexported field is read-only.
\<close>

definition Field_flag :: "flag \<Rightarrow> StructField \<Rightarrow> flag" where
  "Field_flag fl sf =
     \<lparr>flagAddr = flagAddr fl,
      flagStickyRO = (flagStickyRO fl \<or> (\<not> Exported sf \<and> \<not> Anonymous sf)),
      flagEmbedRO = (\<not> Exported sf \<and> Anonymous sf)\<rparr>"

definition FieldOf :: "flag \<Rightarrow> StructField \<times> val \<Rightarrow> Value" where
  "FieldOf fl fld = Val (Field_flag fl (fst fld)) (snd fld)"

text \<open>The flags of \<^verbatim>\<open>v.Index(i)\<close>: a slice element is always addressable.\<close>

definition Index_flag :: "flag \<Rightarrow> flag" where
  "Index_flag fl = \<lparr>flagAddr = True, flagStickyRO = ro fl, flagEmbedRO = False\<rparr>"

text \<open>
  \<^verbatim>\<open>v.MapIndex(k).String()\<close> for a map of strings: the stored string, or the text Go
  prints for the zero Value when the key is not found.
\<close>

definition MapIndex_String :: "(mapkey \<times> string) list \<Rightarrow> mapkey \<Rightarrow> string" where
  "MapIndex_String m k = (case map_of m k of Some s \<Rightarrow> s | None \<Rightarrow> ''<invalid Value>'')"

text \<open>
  \<^verbatim>\<open>v.SetMapIndex(k, reflect.ValueOf(s))\<close> with \<open>s\<close> of type \<^verbatim>\<open>string\<close>: reflect panics
  when a \<^verbatim>\<open>string\<close> is not assignable to the map's element type, which is the case for
  every defined string type.
\<close>

definition SetMapIndex ::
  "strtype \<Rightarrow> (mapkey \<times> string) list \<Rightarrow> mapkey \<Rightarrow> string \<Rightarrow> (mapkey \<times> string) list option" where
  "SetMapIndex t m k s =
     (case t of PredeclaredString \<Rightarrow> Some (AList.update k s m) | DefinedString \<Rightarrow> None)"

section \<open>Errors and results\<close>

text \<open>
  \<open>ErrInvalidType msg\<close> is \<^verbatim>\<open>fmt.Errorf("%w: msg", ErrInvalidType)\<close>; \<open>RenderError\<close> is
  whatever the Markdown renderer returns.
\<close>

datatype error = ErrInvalidType string | RenderError string

text \<open>
  What a call leaves behind: a panic, or the returned pair \<^verbatim>\<open>(bool, error)\<close> together
  with the contents of the visited storage after the call.
\<close>

datatype 's outcome = Panic | Ret bool "error option" 's

text \<open>The pair a call returned, and what it left behind; nothing when it panicked.\<close>

fun returned :: "'s outcome \<Rightarrow> (bool \<times> error option) option" where
  "returned Panic = None"
| "returned (Ret changed err s) = Some (changed, err)"

fun left :: "'s outcome \<Rightarrow> 's option" where
  "left Panic = None"
| "left (Ret changed err s) = Some s"

section \<open>The converter\<close>

typedecl ParseOption

text \<open>
  \<^verbatim>\<open>goldmark.Markdown.Convert(source, w, opts...)\<close>: the text written to \<open>w\<close> and the
  error returned.
\<close>

record converter =
  markdown :: "ParseOption list \<Rightarrow> string \<Rightarrow> string \<times> error option"

record fieldProcessor =
  ConvertAllFields :: bool
  ValidateOnly :: bool
  converter :: converter
  parseOptions :: "ParseOption list"

definition makeFieldProcessor :: "converter \<Rightarrow> ParseOption list \<Rightarrow> fieldProcessor" where
  "makeFieldProcessor c opts =
     \<lparr>ConvertAllFields = False, ValidateOnly = False, converter = c, parseOptions = opts\<rparr>"

definition writeMarkdown :: "fieldProcessor \<Rightarrow> string \<Rightarrow> string \<times> error option" where
  "writeMarkdown f source = markdown (converter f) (parseOptions f) source"

definition renderString :: "fieldProcessor \<Rightarrow> string \<Rightarrow> string \<times> error option" where
  "renderString f s = writeMarkdown f s"

definition isValidSettable :: "Value \<Rightarrow> bool" where
  "isValidSettable v = (IsValid v \<and> CanSet v)"

section \<open>Tags\<close>

definition structTagKey :: string where
  "structTagKey = ''markdown''"

text \<open>\<^verbatim>\<open>StructTag.Get\<close>: the value of the first pair with that key, else the empty string.\<close>

definition Get :: "StructTag \<Rightarrow> string \<Rightarrow> string" where
  "Get tag key = (case map_of tag key of Some v \<Rightarrow> v | None \<Rightarrow> [])"

text \<open>
  \<^verbatim>\<open>strings.ToLower\<close> on the bytes of a string: the ASCII capitals are mapped to small
  letters. Bytes beyond ASCII are kept; no such byte occurs in an enabling value.
\<close>

definition toLowerByte :: "char \<Rightarrow> char" where
  "toLowerByte c =
     (case map_of (zip ''ABCDEFGHIJKLMNOPQRSTUVWXYZ'' ''abcdefghijklmnopqrstuvwxyz'') c of
        Some l \<Rightarrow> l
      | None \<Rightarrow> c)"

definition ToLower :: "string \<Rightarrow> string" where
  "ToLower s = map toLowerByte s"

definition isMarkdownTagEnabled :: "StructTag \<Rightarrow> bool" where
  "isMarkdownTagEnabled tag =
     (let tagval = Get tag structTagKey; l = ToLower tagval in
      if l = ''on'' \<or> l = ''yes'' \<or> l = ''1'' \<or> l = ''y'' \<or> l = ''enable'' then True
      else False)"

definition isStructFieldTagEnabled :: "Value \<Rightarrow> StructField \<times> val \<Rightarrow> bool" where
  "isStructFieldTagEnabled structval fld =
     (if Kind structval \<noteq> Struct then False
      else isMarkdownTagEnabled (Tag (fst fld)))"

definition isStruct :: "Value \<Rightarrow> bool" where
  "isStruct v =
     (if \<not> IsValid v then False
      else if Kind v = Struct then True
      else if Kind v = Ptr then
        (let elem = Elem v in
         if \<not> IsValid elem then False
         else if Kind elem = Struct then True
         else False)
      else False)"

section \<open>The traversal engine\<close>

text \<open>
  \<^verbatim>\<open>v.String()\<close>: the string itself, or for a value of another kind the text
  \<^verbatim>\<open><T Value>\<close> (its type written \<open>T\<close> here). \<^verbatim>\<open>v.SetString\<close> panics on a value that
  is not a string; the engine has checked \<^verbatim>\<open>CanSet\<close> before.
\<close>

fun String_of :: "Value \<Rightarrow> string" where
  "String_of (Val fl (StringV s)) = s"
| "String_of ZeroValue = ''<invalid Value>''"
| "String_of v = ''<T Value>''"

fun SetString :: "Value \<Rightarrow> string \<Rightarrow> Value option" where
  "SetString (Val fl (StringV s)) x = Some (Val fl (StringV x))"
| "SetString v x = None"

definition convertString :: "fieldProcessor \<Rightarrow> Value \<Rightarrow> Value outcome" where
  "convertString f v =
     (if \<not> isValidSettable v then Ret False None v
      else
        let value = String_of v;
            (rendered, err) = renderString f value in
        if err \<noteq> None then Ret False err v
        else if \<not> ValidateOnly f then
          (case SetString v rendered of
             None \<Rightarrow> Panic
           | Some v' \<Rightarrow> Ret (value \<noteq> rendered) err v')
        else Ret (value \<noteq> rendered) err v)"

text \<open>
  The loop of \<^verbatim>\<open>convertMap\<close> over \<^verbatim>\<open>v.MapKeys()\<close>. The \<^verbatim>\<open>err\<close> assigned in the loop
  body is a variable of the body (\<^verbatim>\<open>mdstr, err := ...\<close>); \<open>err\<close> here is the outer one,
  which the loop never assigns and which is returned after the loop.
\<close>

fun convertMap_loop ::
  "fieldProcessor \<Rightarrow> strtype \<Rightarrow> mapkey list \<Rightarrow> (mapkey \<times> string) list \<Rightarrow> bool \<Rightarrow> error option
     \<Rightarrow> (mapkey \<times> string) list outcome" where
  "convertMap_loop f t [] m changed err = Ret changed err m"
| "convertMap_loop f t (kval # keys) m changed err =
     (let rawstr = MapIndex_String m kval;
          (mdstr, err') = renderString f rawstr in
      if err' \<noteq> None then Ret changed err m
      else if rawstr \<noteq> mdstr then
        (if \<not> ValidateOnly f then
           (case SetMapIndex t m kval mdstr of
              None \<Rightarrow> Panic
            | Some m' \<Rightarrow> convertMap_loop f t keys m' True err)
         else convertMap_loop f t keys m True err)
      else convertMap_loop f t keys m changed err)"

definition convertMap :: "fieldProcessor \<Rightarrow> Value \<Rightarrow> Value outcome" where
  "convertMap f v =
     (case v of
        Val fl (StringMapV t m) \<Rightarrow>
          (if \<not> CanSet v then Ret False None v
           else case convertMap_loop f t (map fst m) m False None of
                  Panic \<Rightarrow> Panic
                | Ret changed err m' \<Rightarrow> Ret changed err (Val fl (StringMapV t m')))
      | Val fl OtherMapV \<Rightarrow> Ret False None v
      | _ \<Rightarrow> Ret False (Some (ErrInvalidType ''expect map'')) v)"


text \<open>
  The contents of a piece of storage after a call that was given a handle on it: what
  the handle now holds. The zero Value is a handle on nothing.
\<close>

fun store :: "Value \<Rightarrow> val \<Rightarrow> val" where
  "store (Val fl x) old = x"
| "store ZeroValue old = old"

fun flag_of :: "Value \<Rightarrow> flag" where
  "flag_of (Val fl x) = fl"
| "flag_of ZeroValue = \<lparr>flagAddr = False, flagStickyRO = False, flagEmbedRO = False\<rparr>"

text \<open>The pointer \<open>v\<close> after the call on \<^verbatim>\<open>v.Elem()\<close> returned the handle \<open>elem'\<close>.\<close>

fun setElem :: "Value \<Rightarrow> Value \<Rightarrow> Value" where
  "setElem (Val fl (PtrV (Some x))) elem' = Val fl (PtrV (Some (store elem' x)))"
| "setElem v elem' = v"

fun Value_size :: "Value \<Rightarrow> nat" where
  "Value_size ZeroValue = 0"
| "Value_size (Val fl x) = Suc (size x)"

text \<open>
  \<^verbatim>\<open>convert\<close>, \<^verbatim>\<open>convertSlice\<close> and \<^verbatim>\<open>convertStruct\<close> call each other. The two
  \<^verbatim>\<open>for\<close> loops run over the elements and the fields still to visit and return them
  as the loop leaves them. In \<^verbatim>\<open>convertSlice\<close> the loop body declares its own
  \<^verbatim>\<open>err\<close> (\<^verbatim>\<open>fchanged, err := f.convert(entry)\<close>), so the outer \<open>err\<close> that is
  returned is never assigned; in \<^verbatim>\<open>convertStruct\<close> the body assigns the outer one
  (\<^verbatim>\<open>fchanged, err = f.convert(field)\<close>).
\<close>

function convert :: "fieldProcessor \<Rightarrow> Value \<Rightarrow> Value outcome"
  and convertSlice :: "fieldProcessor \<Rightarrow> Value \<Rightarrow> Value outcome"
  and convertSlice_loop ::
    "fieldProcessor \<Rightarrow> flag \<Rightarrow> val list \<Rightarrow> bool \<Rightarrow> error option \<Rightarrow> val list outcome"
  and convertStruct :: "fieldProcessor \<Rightarrow> Value \<Rightarrow> Value outcome"
  and convertStruct_loop ::
    "fieldProcessor \<Rightarrow> Value \<Rightarrow> (StructField \<times> val) list \<Rightarrow> bool \<Rightarrow> error option
       \<Rightarrow> (StructField \<times> val) list outcome"
where
  "convert f v =
     (case Kind v of
        Ptr \<Rightarrow>
          (let elem = Elem v in
           case convert f elem of
             Panic \<Rightarrow> Panic
           | Ret changed err elem' \<Rightarrow> Ret changed err (setElem v elem'))
      | Slice \<Rightarrow> convertSlice f v
      | Array \<Rightarrow> convertSlice f v
      | Map \<Rightarrow> convertMap f v
      | Struct \<Rightarrow> convertStruct f v
      | String \<Rightarrow> convertString f v
      | _ \<Rightarrow> Ret False None v)"
| "convertSlice f v =
     (case v of
        Val fl (SliceV xs) \<Rightarrow>
          (case convertSlice_loop f fl xs False None of
             Panic \<Rightarrow> Panic
           | Ret changed err xs' \<Rightarrow> Ret changed err (Val fl (SliceV xs')))
      | _ \<Rightarrow> Ret False (Some (ErrInvalidType ''expect string slice'')) v)"
| "convertSlice_loop f fl [] changed err = Ret changed err []"
| "convertSlice_loop f fl (x # xs) changed err =
     (let entry = Val (Index_flag fl) x in
      case convert f entry of
        Panic \<Rightarrow> Panic
      | Ret fchanged err' entry' \<Rightarrow>
          (let changed = (fchanged \<or> changed) in
           if err' \<noteq> None then Ret changed err (store entry' x # xs)
           else case convertSlice_loop f fl xs changed err of
                  Panic \<Rightarrow> Panic
                | Ret c e xs' \<Rightarrow> Ret c e (store entry' x # xs')))"
| "convertStruct f v =
     (case v of
        Val fl (StructV fs) \<Rightarrow>
          (case convertStruct_loop f v fs False None of
             Panic \<Rightarrow> Panic
           | Ret changed err fs' \<Rightarrow> Ret changed err (Val fl (StructV fs')))
      | _ \<Rightarrow> Ret False (Some (ErrInvalidType ''expect struct'')) v)"
| "convertStruct_loop f v [] changed err = Ret changed err []"
| "convertStruct_loop f v (fld # rest) changed err =
     (let field = FieldOf (flag_of v) fld in
      if \<not> isStruct field \<and> \<not> ConvertAllFields f \<and> \<not> isStructFieldTagEnabled v fld then
        (case convertStruct_loop f v rest changed err of
           Panic \<Rightarrow> Panic
         | Ret c e rest' \<Rightarrow> Ret c e (fld # rest'))
      else
        case convert f field of
          Panic \<Rightarrow> Panic
        | Ret fchanged err' field' \<Rightarrow>
            (let changed = (fchanged \<or> changed) in
             if err' \<noteq> None then Ret changed err' ((fst fld, store field' (snd fld)) # rest)
             else case convertStruct_loop f v rest changed err' of
                    Panic \<Rightarrow> Panic
                  | Ret c e rest' \<Rightarrow> Ret c e ((fst fld, store field' (snd fld)) # rest')))"
  by pat_completeness auto

text \<open>Every call descends into the value: the traversal of a tree ends.\<close>

termination
proof (relation "measure (\<lambda>x. case x of
      Inl (Inl (f, v)) \<Rightarrow> 2 * Value_size v + 1
    | Inl (Inr (f, v)) \<Rightarrow> 2 * Value_size v
    | Inr (Inl (f, fl, xs, c, e)) \<Rightarrow> 2 * size_list size xs + 2
    | Inr (Inr (Inl (f, v))) \<Rightarrow> 2 * Value_size v
    | Inr (Inr (Inr (f, v, fs, c, e))) \<Rightarrow> 2 * size_list (size_prod (\<lambda>_. 0) size) fs + 2)",
    goal_cases)
  case 1
  show ?case by simp
next
  case (2 f v x)
  then show ?case by (cases v rule: Elem.cases) auto
qed (auto simp: FieldOf_def)

section \<open>Entry points\<close>

text \<open>
  The argument \<^verbatim>\<open>s interface{}\<close>: \<open>None\<close> is the nil interface, \<open>Some x\<close> holds the
  value \<open>x\<close>, which \<^verbatim>\<open>reflect.ValueOf\<close> returns with no permission bit set.
\<close>

definition ValueOf :: "val option \<Rightarrow> Value" where
  "ValueOf s =
     (case s of
        None \<Rightarrow> ZeroValue
      | Some x \<Rightarrow> Val \<lparr>flagAddr = False, flagStickyRO = False, flagEmbedRO = False\<rparr> x)"

fun Interface :: "Value \<Rightarrow> val option" where
  "Interface ZeroValue = None"
| "Interface (Val fl x) = Some x"

text \<open>
  \<^verbatim>\<open>process\<close> returns the pair of the call and, third, the caller's \<open>s\<close> after it.
\<close>

definition process ::
  "converter \<Rightarrow> val option \<Rightarrow> bool \<Rightarrow> bool \<Rightarrow> ParseOption list \<Rightarrow> val option outcome" where
  "process c s allFields validateOnly opts =
     (let objval = ValueOf s in
      if \<not> IsValid objval then Ret False None s
      else if Kind objval \<noteq> Ptr then
        Ret False (Some (ErrInvalidType ''expect pointer to struct'')) s
      else
        let elem = Elem objval in
        if \<not> isValidSettable elem then Ret False None s
        else
          let fieldproc = (makeFieldProcessor c opts)
                \<lparr>ConvertAllFields := allFields, ValidateOnly := validateOnly\<rparr> in
          case convertStruct fieldproc elem of
            Panic \<Rightarrow> Panic
          | Ret changed err elem' \<Rightarrow> Ret changed err (Interface (setElem objval elem')))"

definition ConvertFields :: "converter \<Rightarrow> val option \<Rightarrow> ParseOption list \<Rightarrow> val option outcome" where
  "ConvertFields c s opts = process c s False False opts"

definition ConvertAllFields :: "converter \<Rightarrow> val option \<Rightarrow> ParseOption list \<Rightarrow> val option outcome" where
  "ConvertAllFields c s opts = process c s True False opts"

definition ValidateFields :: "converter \<Rightarrow> val option \<Rightarrow> ParseOption list \<Rightarrow> val option outcome" where
  "ValidateFields c s opts = process c s False True opts"

definition ValidateAllFields :: "converter \<Rightarrow> val option \<Rightarrow> ParseOption list \<Rightarrow> val option outcome" where
  "ValidateAllFields c s opts = process c s True True opts"

definition WithMarkdown :: "(ParseOption list \<Rightarrow> string \<Rightarrow> string \<times> error option) \<Rightarrow> converter" where
  "WithMarkdown md = \<lparr>markdown = md\<rparr>"

section \<open>Renderers and values used in examples\<close>

text \<open>
  \<open>ExplodingMarkdown\<close> is the renderer of the test file, which fails on every text.
  \<open>paragraphMarkdown\<close> wraps a text in a paragraph, as goldmark does with plain text.
  \<open>pickyMarkdown\<close> does the same and fails on the text \<^verbatim>\<open>bad\<close> only.
\<close>

definition ExplodingMarkdown :: "ParseOption list \<Rightarrow> string \<Rightarrow> string \<times> error option" where
  "ExplodingMarkdown opts source = ([], Some (RenderError ''BOOM''))"

definition paragraphMarkdown :: "ParseOption list \<Rightarrow> string \<Rightarrow> string \<times> error option" where
  "paragraphMarkdown opts source = (''<p>'' @ source @ ''</p>'', None)"

definition pickyMarkdown :: "ParseOption list \<Rightarrow> string \<Rightarrow> string \<times> error option" where
  "pickyMarkdown opts source =
     (if source = ''bad'' then ([], Some (RenderError ''BOOM''))
      else (''<p>'' @ source @ ''</p>'', None))"

definition tagged :: StructField where
  "tagged = \<lparr>Exported = True, Anonymous = False, Tag = [(''markdown'', ''on'')]\<rparr>"

definition untagged :: StructField where
  "untagged = \<lparr>Exported = True, Anonymous = False, Tag = []\<rparr>"

definition unexported :: StructField where
  "unexported = \<lparr>Exported = False, Anonymous = False, Tag = [(''markdown'', ''on'')]\<rparr>"

text \<open>A pointer to a struct with the given fields, as a caller passes it.\<close>

definition ptrTo :: "(StructField \<times> val) list \<Rightarrow> val option" where
  "ptrTo fs = Some (PtrV (Some (StructV fs)))"

text \<open>
  \<open>pointerChain n x\<close> is \<open>x\<close> behind \<open>n\<close> non-nil pointers; \<open>entryPoints c\<close> are the four
  exported operations of a converter.
\<close>

fun pointerChain :: "nat \<Rightarrow> val \<Rightarrow> val" where
  "pointerChain 0 x = x"
| "pointerChain (Suc n) x = PtrV (Some (pointerChain n x))"

definition entryPoints ::
  "converter \<Rightarrow> (val option \<Rightarrow> ParseOption list \<Rightarrow> val option outcome) list" where
  "entryPoints c = [ConvertFields c, ConvertAllFields c, ValidateFields c, ValidateAllFields c]"

text \<open>The field processor of the validate-only call with the same policy and renderer.\<close>

abbreviation validating :: "fieldProcessor \<Rightarrow> fieldProcessor" where
  "validating f \<equiv> f\<lparr>ValidateOnly := True\<rparr>"

section \<open>Basic facts\<close>

text \<open>
  The equations of \<open>convert\<close>, \<open>convertSlice\<close> and \<open>convertStruct\<close> rewrite any call;
  they are used one constructor at a time.
\<close>

declare convert.simps [simp del] convertSlice.simps [simp del] convertStruct.simps [simp del]

lemma convert_ZeroValue [simp]: "convert f ZeroValue = Ret False None ZeroValue"
  by (simp add: convert.simps)

lemma convert_nil [simp]: "convert f (Val fl (PtrV None)) = Ret False None (Val fl (PtrV None))"
  by (simp add: convert.simps)

lemma convert_Ptr:
  "convert f (Val fl (PtrV (Some x))) =
     (case convert f (Val (fl\<lparr>flagAddr := True\<rparr>) x) of
        Panic \<Rightarrow> Panic
      | Ret changed err elem' \<Rightarrow> Ret changed err (Val fl (PtrV (Some (store elem' x)))))"
  by (subst convert.simps) (simp split: outcome.splits)

lemma convert_String: "convert f (Val fl (StringV s)) = convertString f (Val fl (StringV s))"
  by (simp add: convert.simps)

lemma convertSlice_Slice:
  "convertSlice f (Val fl (SliceV xs)) =
     (case convertSlice_loop f fl xs False None of
        Panic \<Rightarrow> Panic
      | Ret changed err xs' \<Rightarrow> Ret changed err (Val fl (SliceV xs')))"
  by (simp add: convertSlice.simps)

lemma convert_Slice: "convert f (Val fl (SliceV xs)) = convertSlice f (Val fl (SliceV xs))"
  by (simp add: convert.simps)

lemma convert_Array:
  "convert f (Val fl (ArrayV xs)) =
     Ret False (Some (ErrInvalidType ''expect string slice'')) (Val fl (ArrayV xs))"
  by (simp add: convert.simps convertSlice.simps)

lemma convert_StringMap: "convert f (Val fl (StringMapV t m)) = convertMap f (Val fl (StringMapV t m))"
  by (simp add: convert.simps)

lemma convert_OtherMap: "convert f (Val fl OtherMapV) = Ret False None (Val fl OtherMapV)"
  by (simp add: convert.simps convertMap_def)

lemma convertStruct_Struct:
  "convertStruct f (Val fl (StructV fs)) =
     (case convertStruct_loop f (Val fl (StructV fs)) fs False None of
        Panic \<Rightarrow> Panic
      | Ret changed err fs' \<Rightarrow> Ret changed err (Val fl (StructV fs')))"
  by (simp add: convertStruct.simps)

lemma convert_Struct: "convert f (Val fl (StructV fs)) = convertStruct f (Val fl (StructV fs))"
  by (simp add: convert.simps)

lemma convert_Other: "convert f (Val fl OtherV) = Ret False None (Val fl OtherV)"
  by (simp add: convert.simps)

lemmas convert_cases = convert_Ptr convert_String convert_Slice convert_Array convert_StringMap
  convert_OtherMap convert_Struct convert_Other

text \<open>A call hands back the handle it was given: same flags, same shape of storage.\<close>

lemma convertString_handle:
  "convertString f (Val fl x) = Ret c e v' \<Longrightarrow> \<exists>x'. v' = Val fl x'"
  by (cases x) (auto simp: convertString_def Let_def split: if_splits prod.splits option.splits)

lemma convertMap_handle:
  "convertMap f (Val fl x) = Ret c e v' \<Longrightarrow> \<exists>x'. v' = Val fl x'"
  by (cases x) (auto simp: convertMap_def split: if_splits outcome.splits)

lemma convertSlice_handle:
  "convertSlice f (Val fl x) = Ret c e v' \<Longrightarrow> \<exists>x'. v' = Val fl x'"
  by (cases x) (auto simp: convertSlice.simps split: outcome.splits)

lemma convertStruct_handle:
  "convertStruct f (Val fl x) = Ret c e v' \<Longrightarrow> \<exists>x'. v' = Val fl x'"
  by (cases x) (auto simp: convertStruct.simps split: outcome.splits)

lemma convert_handle:
  "convert f (Val fl x) = Ret c e v' \<Longrightarrow> \<exists>x'. v' = Val fl x'"
proof (cases x)
  case (PtrV p)
  assume "convert f (Val fl x) = Ret c e v'"
  with PtrV show ?thesis
    by (cases p) (auto simp: convert_Ptr split: outcome.splits)
qed (auto simp: convert_cases dest: convertString_handle convertMap_handle
        convertSlice_handle convertStruct_handle)

text \<open>Validate-only calls return, and leave the value as it was.\<close>

lemma convertString_validate:
  "ValidateOnly f \<Longrightarrow> left (convertString f v) = Some v"
  by (auto simp: convertString_def Let_def split: prod.splits)

lemma convertMap_loop_validate:
  "ValidateOnly f \<Longrightarrow> left (convertMap_loop f t keys m changed err) = Some m"
  by (induction keys arbitrary: changed) (auto simp: Let_def split: prod.splits)

lemma convertMap_validate:
  assumes "ValidateOnly f"
  shows "left (convertMap f v) = Some v"
proof (cases v)
  case ZeroValue
  then show ?thesis by (simp add: convertMap_def)
next
  case (Val fl x)
  show ?thesis
  proof (cases x)
    case (StringMapV t m)
    with convertMap_loop_validate [OF assms, of t "map fst m" m False None] Val
    show ?thesis by (auto simp: convertMap_def split: outcome.splits)
  qed (simp_all add: Val convertMap_def)
qed

lemma convertSlice_loop_validate:
  assumes "\<And>x fl. x \<in> set xs \<Longrightarrow> left (convert f (Val fl x)) = Some (Val fl x)"
  shows "left (convertSlice_loop f fl xs changed err) = Some xs"
  using assms
proof (induction xs arbitrary: changed)
  case Nil
  then show ?case by simp
next
  case (Cons x xs)
  have x: "left (convert f (Val (Index_flag fl) x)) = Some (Val (Index_flag fl) x)"
    by (rule Cons.prems) simp
  have xs: "left (convertSlice_loop f fl xs c err) = Some xs" for c
    by (rule Cons.IH) (simp add: Cons.prems)
  show ?case
  proof (cases "convert f (Val (Index_flag fl) x)")
    case Panic
    with x show ?thesis by simp
  next
    case (Ret c e v')
    with x have v': "v' = Val (Index_flag fl) x" by simp
    from xs [of "c \<or> changed"] show ?thesis
      by (auto simp: Ret v' Let_def split: outcome.splits)
  qed
qed

lemma store_FieldOf [simp]: "store (FieldOf fl fld) y = snd fld"
  by (simp add: FieldOf_def)

lemma convertStruct_loop_validate:
  assumes "\<And>x fl. x \<in> snd ` set fs \<Longrightarrow> left (convert f (Val fl x)) = Some (Val fl x)"
  shows "left (convertStruct_loop f v fs changed err) = Some fs"
  using assms
proof (induction fs arbitrary: changed err)
  case Nil
  then show ?case by simp
next
  case (Cons fld rest)
  have x: "left (convert f (FieldOf (flag_of v) fld)) = Some (FieldOf (flag_of v) fld)"
    unfolding FieldOf_def by (rule Cons.prems) simp
  have rest: "left (convertStruct_loop f v rest c e) = Some rest" for c e
    by (rule Cons.IH) (simp add: Cons.prems)
  show ?case
  proof (cases "convert f (FieldOf (flag_of v) fld)")
    case Panic
    with x show ?thesis by simp
  next
    case (Ret c e v')
    with x have v': "v' = FieldOf (flag_of v) fld" by simp
    from rest [of "c \<or> changed" e] rest [of changed err] show ?thesis
      by (auto simp: Ret v' Let_def split: outcome.splits)
  qed
qed

lemma convert_validate_Val:
  "ValidateOnly f \<Longrightarrow> left (convert f (Val fl x)) = Some (Val fl x)"
proof (induction x arbitrary: fl)
  case (StringV s)
  then show ?case by (simp add: convert_String convertString_validate)
next
  case (PtrV p)
  show ?case
  proof (cases p)
    case None
    then show ?thesis by simp
  next
    case (Some y)
    with PtrV have
      "left (convert f (Val (fl\<lparr>flagAddr := True\<rparr>) y)) = Some (Val (fl\<lparr>flagAddr := True\<rparr>) y)"
      by simp
    with Some show ?thesis by (auto simp: convert_Ptr split: outcome.splits)
  qed
next
  case (SliceV xs)
  then have "left (convertSlice_loop f fl xs False None) = Some xs"
    by (intro convertSlice_loop_validate) auto
  then show ?case by (auto simp: convert_Slice convertSlice_Slice split: outcome.splits)
next
  case (ArrayV xs)
  then show ?case by (simp add: convert_Array)
next
  case (StringMapV t m)
  then show ?case by (simp add: convert_StringMap convertMap_validate)
next
  case OtherMapV
  then show ?case by (simp add: convert_OtherMap)
next
  case (StructV fs)
  then have "left (convertStruct_loop f (Val fl (StructV fs)) fs False None) = Some fs"
    by (intro convertStruct_loop_validate) fastforce
  then show ?case by (auto simp: convert_Struct convertStruct_Struct split: outcome.splits)
next
  case OtherV
  then show ?case by (simp add: convert_Other)
qed

lemma convert_validate: "ValidateOnly f \<Longrightarrow> left (convert f v) = Some v"
  by (cases v) (simp_all add: convert_validate_Val)

lemma convertStruct_validate: "ValidateOnly f \<Longrightarrow> left (convertStruct f v) = Some v"
proof (cases v)
  case ZeroValue
  then show ?thesis by (simp add: convertStruct.simps)
next
  case (Val fl x)
  assume "ValidateOnly f"
  then have "left (convert f (Val fl x)) = Some (Val fl x)"
    by (rule convert_validate_Val)
  then show ?thesis
    by (cases x) (simp_all add: Val convert_Struct convertStruct.simps)
qed


lemma process_Ptr_Struct:
  "process c (Some (PtrV (Some (StructV fs)))) allFields validateOnly opts =
     (case convertStruct_loop
             ((makeFieldProcessor c opts)
                \<lparr>ConvertAllFields := allFields, ValidateOnly := validateOnly\<rparr>)
             (Val \<lparr>flagAddr = True, flagStickyRO = False, flagEmbedRO = False\<rparr> (StructV fs))
             fs False None of
        Panic \<Rightarrow> Panic
      | Ret changed err fs' \<Rightarrow> Ret changed err (Some (PtrV (Some (StructV fs')))))"
  by (simp add: process_def ValueOf_def isValidSettable_def flagRO_def convertStruct_Struct
      split: outcome.splits)

lemma store_handle: "convert f (Val fl x) = Ret c e v' \<Longrightarrow> Val fl (store v' x) = v'"
  by (auto dest: convert_handle)


lemma convertStruct_loop_visit:
  assumes "isStruct (FieldOf (flag_of v) fld) \<or> fieldProcessor.ConvertAllFields f
             \<or> isStructFieldTagEnabled v fld"
  shows "convertStruct_loop f v (fld # rest) changed err =
        (case convert f (FieldOf (flag_of v) fld) of
           Panic \<Rightarrow> Panic
         | Ret fchanged err' field' \<Rightarrow>
             if err' \<noteq> None
             then Ret (fchanged \<or> changed) err' ((fst fld, store field' (snd fld)) # rest)
             else case convertStruct_loop f v rest (fchanged \<or> changed) err' of
                    Panic \<Rightarrow> Panic
                  | Ret c e rest' \<Rightarrow> Ret c e ((fst fld, store field' (snd fld)) # rest'))"
  using assms by (auto simp: Let_def split: outcome.splits)

lemma convertStruct_loop_append:
  "convertStruct_loop f v pre changed None = Ret c1 None pre' \<Longrightarrow>
   convertStruct_loop f v (pre @ rest) changed None =
     (case convertStruct_loop f v rest c1 None of
        Panic \<Rightarrow> Panic
      | Ret c e rest' \<Rightarrow> Ret c e (pre' @ rest'))"
proof (induction pre arbitrary: changed pre')
  case Nil
  then show ?case by (simp split: outcome.splits)
next
  case (Cons fld pre)
  show ?case
  proof (cases "isStruct (FieldOf (flag_of v) fld) \<or> fieldProcessor.ConvertAllFields f
                  \<or> isStructFieldTagEnabled v fld")
    case False
    with Cons.prems obtain pre'' where
      pre: "convertStruct_loop f v pre changed None = Ret c1 None pre''" and "pre' = fld # pre''"
      by (auto split: outcome.splits)
    with False Cons.IH [OF pre] show ?thesis
      by (auto split: outcome.splits)
  next
    case True
    note step = convertStruct_loop_visit [OF True]
    from Cons.prems obtain fc field' pre'' where
      fld: "convert f (FieldOf (flag_of v) fld) = Ret fc None field'" and
      pre: "convertStruct_loop f v pre (fc \<or> changed) None = Ret c1 None pre''" and
      "pre' = (fst fld, store field' (snd fld)) # pre''"
      unfolding step by (auto split: outcome.splits if_splits)
    with Cons.IH [OF pre] show ?thesis
      unfolding append_Cons step by (auto split: outcome.splits)
  qed
qed

text \<open>The loops of \<open>convertSlice\<close> and \<open>convertMap\<close> return the error they started with.\<close>

lemma convertMap_loop_err:
  "convertMap_loop f t keys m changed err = Ret c e m' \<Longrightarrow> e = err"
  by (induction keys arbitrary: m changed)
     (auto simp: Let_def SetMapIndex_def split: prod.splits if_splits option.splits strtype.splits)

lemma convertSlice_loop_err:
  "convertSlice_loop f fl xs changed err = Ret c e xs' \<Longrightarrow> e = err"
  by (induction xs arbitrary: changed xs')
     (auto simp: Let_def split: outcome.splits if_splits)

lemma convertMap_loop_changed:
  "convertMap_loop f t keys m True err = Ret c e m' \<Longrightarrow> c"
  by (induction keys arbitrary: m)
     (auto simp: Let_def SetMapIndex_def split: prod.splits if_splits option.splits strtype.splits)

text \<open>
  On the values of this model, trees whose maps are walked in one fixed order of keys,
  a validate-only call returns the pair that the converting call returns, whenever the
  converting call returns.
\<close>

lemma renderString_validating [simp]: "renderString (validating f) s = renderString f s"
  by (simp add: renderString_def writeMarkdown_def)

lemma convertString_agree:
  "returned (convertString f v) = Some p \<Longrightarrow> returned (convertString (validating f) v) = Some p"
  by (auto simp: convertString_def Let_def split: prod.splits if_splits option.splits)

lemma convertMap_loop_agree:
  assumes "convertMap_loop f t keys m changed err = Ret c e m'"
    and "changed \<or> m0 = m"
  shows "returned (convertMap_loop (validating f) t keys m0 changed err) = Some (c, e)"
  using assms
proof (induction keys arbitrary: m changed)
  case Nil
  then show ?case by auto
next
  case (Cons kval keys)
  show ?case
  proof (cases changed)
    case True
    obtain c' where v: "convertMap_loop (validating f) t (kval # keys) m0 True err = Ret c' err m0"
      using convertMap_loop_validate [of "validating f" t "kval # keys" m0 True err]
        convertMap_loop_err [of "validating f" t "kval # keys" m0 True err]
      by (cases "convertMap_loop (validating f) t (kval # keys) m0 True err") auto
    from convertMap_loop_changed [OF v] have "c'" .
    moreover from Cons.prems(1) True have "c"
      by (metis convertMap_loop_changed)
    moreover from Cons.prems(1) have "e = err"
      by (rule convertMap_loop_err)
    ultimately show ?thesis using v True by simp
  next
    case False
    with Cons.prems have m0: "m0 = m" by simp
    obtain mdstr err' where r: "renderString f (MapIndex_String m kval) = (mdstr, err')"
      by (cases "renderString f (MapIndex_String m kval)")
    show ?thesis
    proof (cases "err' \<noteq> None")
      case True
      with Cons.prems(1) r False m0 show ?thesis by auto
    next
      case noerr: False
      show ?thesis
      proof (cases "MapIndex_String m kval \<noteq> mdstr")
        case True
        show ?thesis
        proof (cases "ValidateOnly f")
          case True
          with Cons.prems(1) r noerr \<open>MapIndex_String m kval \<noteq> mdstr\<close>
          have "convertMap_loop f t keys m True err = Ret c e m'" by simp
          from Cons.IH [OF this] r noerr \<open>MapIndex_String m kval \<noteq> mdstr\<close> m0
          show ?thesis by simp
        next
          case False
          with Cons.prems(1) r noerr \<open>MapIndex_String m kval \<noteq> mdstr\<close>
          obtain m1 where "convertMap_loop f t keys m1 True err = Ret c e m'"
            by (auto split: option.splits)
          from Cons.IH [OF this] r noerr \<open>MapIndex_String m kval \<noteq> mdstr\<close> m0
          show ?thesis by simp
        qed
      next
        case same: False
        with Cons.prems(1) r noerr
        have "convertMap_loop f t keys m changed err = Ret c e m'" by simp
        from Cons.IH [OF this] r noerr same m0
        show ?thesis by simp
      qed
    qed
  qed
qed

lemma convertMap_agree:
  assumes *: "returned (convertMap f v) = Some p"
  shows "returned (convertMap (validating f) v) = Some p"
proof (cases v)
  case ZeroValue
  with * show ?thesis by (simp add: convertMap_def)
next
  case (Val fl x)
  show ?thesis
  proof (cases x)
    case (StringMapV t m)
    show ?thesis
    proof (cases "CanSet v")
      case False
      with * Val StringMapV show ?thesis by (simp add: convertMap_def)
    next
      case True
      with * Val StringMapV obtain c e m' where
        l: "convertMap_loop f t (map fst m) m False None = Ret c e m'" and p: "p = (c, e)"
        by (auto simp: convertMap_def split: outcome.splits)
      from convertMap_loop_agree [OF l, of m] True Val StringMapV p
      show ?thesis by (auto simp: convertMap_def split: outcome.splits)
    qed
  qed (use * Val in \<open>simp_all add: convertMap_def\<close>)
qed

lemma convertSlice_loop_agree:
  assumes "\<And>x fl p. x \<in> set xs \<Longrightarrow> returned (convert f (Val fl x)) = Some p \<Longrightarrow>
             returned (convert (validating f) (Val fl x)) = Some p"
    and "returned (convertSlice_loop f fl xs changed err) = Some p"
  shows "returned (convertSlice_loop (validating f) fl xs changed err) = Some p"
  using assms
proof (induction xs arbitrary: changed)
  case Nil
  then show ?case by simp
next
  case (Cons x xs)
  from Cons.prems(2) obtain fc e' x' where
    x: "convert f (Val (Index_flag fl) x) = Ret fc e' x'"
    by (cases "convert f (Val (Index_flag fl) x)") auto
  with Cons.prems(1) [of x "Index_flag fl" "(fc, e')"]
  obtain x'' where vx: "convert (validating f) (Val (Index_flag fl) x) = Ret fc e' x''"
    by (cases "convert (validating f) (Val (Index_flag fl) x)") auto
  show ?case
  proof (cases "e' \<noteq> None")
    case True
    with Cons.prems(2) x vx show ?thesis by (auto simp: Let_def)
  next
    case False
    with Cons.prems(2) x
    have "returned (convertSlice_loop f fl xs (fc \<or> changed) err) = Some p"
      by (auto simp: Let_def split: outcome.splits)
    then have "returned (convertSlice_loop (validating f) fl xs (fc \<or> changed) err) = Some p"
      by (intro Cons.IH Cons.prems(1)) auto
    with False vx show ?thesis by (auto simp: Let_def split: outcome.splits)
  qed
qed

lemma convertStruct_loop_agree:
  assumes "\<And>x fl p. x \<in> snd ` set fs \<Longrightarrow> returned (convert f (Val fl x)) = Some p \<Longrightarrow>
             returned (convert (validating f) (Val fl x)) = Some p"
    and "returned (convertStruct_loop f v fs changed err) = Some p"
  shows "returned (convertStruct_loop (validating f) v fs changed err) = Some p"
  using assms
proof (induction fs arbitrary: changed err)
  case Nil
  then show ?case by simp
next
  case (Cons fld rest)
  have IH: "returned (convertStruct_loop (validating f) v rest c e) = Some p"
    if "returned (convertStruct_loop f v rest c e) = Some p" for c e
    using that by (intro Cons.IH Cons.prems(1)) auto
  show ?case
  proof (cases "isStruct (FieldOf (flag_of v) fld) \<or> fieldProcessor.ConvertAllFields f
                  \<or> isStructFieldTagEnabled v fld")
    case False
    with Cons.prems(2) have "returned (convertStruct_loop f v rest changed err) = Some p"
      by (auto split: outcome.splits)
    from IH [OF this] False show ?thesis by (auto split: outcome.splits)
  next
    case True
    then have True': "isStruct (FieldOf (flag_of v) fld)
        \<or> fieldProcessor.ConvertAllFields (validating f) \<or> isStructFieldTagEnabled v fld"
      by simp
    note step = convertStruct_loop_visit [OF True] convertStruct_loop_visit [OF True']
    from Cons.prems(2) obtain fc e' x' where
      x: "convert f (FieldOf (flag_of v) fld) = Ret fc e' x'"
      unfolding step by (cases "convert f (FieldOf (flag_of v) fld)") auto
    with Cons.prems(1) [of "snd fld" "Field_flag (flag_of v) (fst fld)" "(fc, e')"]
    obtain x'' where vx: "convert (validating f) (FieldOf (flag_of v) fld) = Ret fc e' x''"
      by (cases "convert (validating f) (FieldOf (flag_of v) fld)") (auto simp: FieldOf_def)
    show ?thesis
    proof (cases "e' \<noteq> None")
      case True
      with Cons.prems(2) x vx show ?thesis unfolding step by auto
    next
      case False
      with Cons.prems(2) x
      have "returned (convertStruct_loop f v rest (fc \<or> changed) e') = Some p"
        unfolding step by (auto split: outcome.splits)
      from IH [OF this] False vx show ?thesis
        unfolding step by (auto split: outcome.splits)
    qed
  qed
qed

lemma convert_agree_Val:
  "returned (convert f (Val fl x)) = Some p \<Longrightarrow>
   returned (convert (validating f) (Val fl x)) = Some p"
proof (induction x arbitrary: fl p)
  case (StringV s)
  then show ?case by (simp add: convert_String convertString_agree)
next
  case (PtrV q)
  show ?case
  proof (cases q)
    case None
    with PtrV.prems show ?thesis by simp
  next
    case (Some y)
    with PtrV.prems obtain c e y' where
      y: "convert f (Val (fl\<lparr>flagAddr := True\<rparr>) y) = Ret c e y'" and p: "p = (c, e)"
      by (auto simp: convert_Ptr split: outcome.splits)
    from PtrV.IH [of y "fl\<lparr>flagAddr := True\<rparr>" "(c, e)"] Some y
    have "returned (convert (validating f) (Val (fl\<lparr>flagAddr := True\<rparr>) y)) = Some (c, e)"
      by simp
    with Some p show ?thesis by (auto simp: convert_Ptr split: outcome.splits)
  qed
next
  case (SliceV xs)
  from SliceV.prems have "returned (convertSlice_loop f fl xs False None) = Some p"
    by (auto simp: convert_Slice convertSlice_Slice split: outcome.splits)
  then have "returned (convertSlice_loop (validating f) fl xs False None) = Some p"
    by (intro convertSlice_loop_agree SliceV.IH) auto
  then show ?case by (auto simp: convert_Slice convertSlice_Slice split: outcome.splits)
next
  case (ArrayV xs)
  then show ?case by (simp add: convert_Array)
next
  case (StringMapV t m)
  then show ?case by (simp add: convert_StringMap convertMap_agree)
next
  case OtherMapV
  then show ?case by (simp add: convert_OtherMap)
next
  case (StructV fs)
  from StructV.prems
  have "returned (convertStruct_loop f (Val fl (StructV fs)) fs False None) = Some p"
    by (auto simp: convert_Struct convertStruct_Struct split: outcome.splits)
  then have "returned (convertStruct_loop (validating f) (Val fl (StructV fs)) fs False None) = Some p"
  proof (rule convertStruct_loop_agree [rotated])
    fix x fl' p'
    assume "x \<in> snd ` set fs" and "returned (convert f (Val fl' x)) = Some p'"
    then show "returned (convert (validating f) (Val fl' x)) = Some p'"
      using StructV.IH by fastforce
  qed
  then show ?case by (auto simp: convert_Struct convertStruct_Struct split: outcome.splits)
next
  case OtherV
  then show ?case by (simp add: convert_Other)
qed

lemma validate_agrees_with_convert:
  assumes "returned (process c s allFields False opts) = Some p"
  shows "returned (process c s allFields True opts) = Some p"
proof (cases s)
  case None
  with assms show ?thesis by (simp add: process_def ValueOf_def)
next
  case (Some x)
  show ?thesis
  proof (cases "\<exists>fs. x = PtrV (Some (StructV fs))")
    case True
    then obtain fs where x: "x = PtrV (Some (StructV fs))" ..
    let ?f = "(makeFieldProcessor c opts)\<lparr>ConvertAllFields := allFields, ValidateOnly := False\<rparr>"
    let ?v = "Val \<lparr>flagAddr = True, flagStickyRO = False, flagEmbedRO = False\<rparr> (StructV fs)"
    have "process c s allFields True opts =
        (case convertStruct_loop (validating ?f) ?v fs False None of
           Panic \<Rightarrow> Panic
         | Ret changed err fs' \<Rightarrow> Ret changed err (Some (PtrV (Some (StructV fs')))))"
      by (simp add: Some x process_Ptr_Struct)
    moreover from assms Some x have "returned (convert ?f ?v) = Some p"
      by (auto simp: process_Ptr_Struct convert_Struct convertStruct_Struct split: outcome.splits)
    then have "returned (convert (validating ?f) ?v) = Some p"
      by (rule convert_agree_Val)
    ultimately show ?thesis
      by (auto simp: convert_Struct convertStruct_Struct split: outcome.splits)
  next
    case False
    have "process c (Some x) allFields False opts = process c (Some x) allFields True opts"
    proof (cases x)
      case (PtrV q)
      show ?thesis
      proof (cases q)
        case None
        with PtrV show ?thesis by (simp add: process_def ValueOf_def isValidSettable_def)
      next
        case (Some y)
        with PtrV False show ?thesis
          by (cases y)
             (simp_all add: process_def ValueOf_def isValidSettable_def flagRO_def
                convertStruct.simps)
      qed
    qed (simp_all add: process_def ValueOf_def)
    with assms Some show ?thesis by metis
  qed
qed

section \<open>The claims\<close>

text \<open>
  Claim C1 says that an entry point reports \<open>changed = false\<close> whenever it returns an
  error. The struct loop returns the flag it has accumulated: with a renderer that
  accepts the first field and fails on the second, \<open>ConvertFields\<close> returns
  \<open>(true, BOOM)\<close>.
\<close>

theorem changed_false_on_error_counterexample:
  "ConvertFields (WithMarkdown pickyMarkdown)
     (ptrTo [(tagged, StringV ''a''), (tagged, StringV ''bad'')]) [] =
   Ret True (Some (RenderError ''BOOM''))
     (ptrTo [(tagged, StringV ''<p>a</p>''), (tagged, StringV ''bad'')])"
  by code_simp

text \<open>
  Claim C1, amended. For each entry point, called on a pointer to a struct: when
  the fields before some field are traversed without error and accumulate the flag
  \<open>c1\<close>, and the traversal of that field, which is visited, returns the error \<open>e\<close> with
  the flag \<open>c2\<close>, the call returns \<open>e\<close> together with \<open>c2 \<or> c1\<close>: the flag is true when an
  earlier sibling changed. The earlier fields stay as the traversal left them and the
  later fields are not visited.
\<close>

theorem error_reports_accumulated_change:
  assumes "f = (makeFieldProcessor c opts)\<lparr>ConvertAllFields := allFields, ValidateOnly := validateOnly\<rparr>"
    and "v = Val \<lparr>flagAddr = True, flagStickyRO = False, flagEmbedRO = False\<rparr>
               (StructV (pre @ bad # post))"
    and "convertStruct_loop f v pre False None = Ret c1 None pre'"
    and "isStruct (FieldOf (flag_of v) bad) \<or> allFields \<or> isStructFieldTagEnabled v bad"
    and "convert f (FieldOf (flag_of v) bad) = Ret c2 (Some e) bad'"
  shows "process c (ptrTo (pre @ bad # post)) allFields validateOnly opts =
           Ret (c2 \<or> c1) (Some e) (ptrTo (pre' @ (fst bad, store bad' (snd bad)) # post))"
proof -
  have vis: "isStruct (FieldOf (flag_of v) bad) \<or> fieldProcessor.ConvertAllFields f
               \<or> isStructFieldTagEnabled v bad"
    using assms(1,4) by auto
  have "convertStruct_loop f v (bad # post) c1 None =
          Ret (c2 \<or> c1) (Some e) ((fst bad, store bad' (snd bad)) # post)"
    unfolding convertStruct_loop_visit [OF vis] by (simp add: assms(5))
  with convertStruct_loop_append [OF assms(3), of "bad # post"]
  have "convertStruct_loop f v (pre @ bad # post) False None =
          Ret (c2 \<or> c1) (Some e) (pre' @ (fst bad, store bad' (snd bad)) # post)"
    by simp
  then show ?thesis
    unfolding ptrTo_def process_Ptr_Struct assms(1) [symmetric] assms(2) [symmetric]
    by simp
qed

theorem error_reports_accumulated_change_witness:
  "process (WithMarkdown pickyMarkdown)
     (ptrTo [(tagged, StringV ''a''), (tagged, StringV ''bad''), (tagged, StringV ''c'')])
     False True [] =
   Ret True (Some (RenderError ''BOOM''))
     (ptrTo [(tagged, StringV ''a''), (tagged, StringV ''bad''), (tagged, StringV ''c'')])"
proof -
  let ?f = "(makeFieldProcessor (WithMarkdown pickyMarkdown) [])
              \<lparr>ConvertAllFields := False, ValidateOnly := True\<rparr>"
  let ?v = "Val \<lparr>flagAddr = True, flagStickyRO = False, flagEmbedRO = False\<rparr>
              (StructV ([(tagged, StringV ''a'')] @ (tagged, StringV ''bad'') # [(tagged, StringV ''c'')]))"
  have pre: "convertStruct_loop ?f ?v [(tagged, StringV ''a'')] False None =
               Ret True None [(tagged, StringV ''a'')]"
    by code_simp
  have vis: "isStruct (FieldOf (flag_of ?v) (tagged, StringV ''bad'')) \<or> False
               \<or> isStructFieldTagEnabled ?v (tagged, StringV ''bad'')"
    by code_simp
  have bad: "convert ?f (FieldOf (flag_of ?v) (tagged, StringV ''bad'')) =
               Ret False (Some (RenderError ''BOOM'')) (FieldOf (flag_of ?v) (tagged, StringV ''bad''))"
    by code_simp
  from error_reports_accumulated_change [OF refl refl pre vis bad]
  show ?thesis by simp
qed

text \<open>
  Claim C2: a render error on an element of a slice or on a value of a map stops the
  loop and is returned. The loops stop, but the error is lost: the loop body declares
  an \<open>err\<close> of its own, and the functions return the outer one, which is still nil.
  With the renderer of the tests, which fails on every text, \<open>ConvertFields\<close> returns
  \<open>(false, nil)\<close> for a tagged slice and for a tagged map; with a renderer that fails on
  the second element only, it returns \<open>(true, nil)\<close> and leaves the second and the third
  element as they were.
\<close>

theorem loops_drop_render_error:
  "ConvertFields (WithMarkdown ExplodingMarkdown)
     (ptrTo [(tagged, SliceV [StringV ''_one_'', StringV ''_two_''])]) [] =
   Ret False None (ptrTo [(tagged, SliceV [StringV ''_one_'', StringV ''_two_''])])
   \<and> ConvertFields (WithMarkdown ExplodingMarkdown)
     (ptrTo [(tagged, StringMapV PredeclaredString [(IntKey 200, ''**OK**'')])]) [] =
   Ret False None (ptrTo [(tagged, StringMapV PredeclaredString [(IntKey 200, ''**OK**'')])])
   \<and> ConvertFields (WithMarkdown pickyMarkdown)
     (ptrTo [(tagged, SliceV [StringV ''a'', StringV ''bad'', StringV ''c''])]) [] =
   Ret True None (ptrTo [(tagged, SliceV [StringV ''<p>a</p>'', StringV ''bad'', StringV ''c''])])"
  by code_simp

text \<open>
  Claim C3: no field met inside a struct gives \<open>ErrInvalidType\<close>. \<open>convert\<close> sends
  arrays to \<open>convertSlice\<close>, which accepts slices only, so a visited array field makes
  the entry point return \<open>ErrInvalidType\<close>.
\<close>

theorem array_field_raises_invalid_type:
  "ConvertFields (WithMarkdown paragraphMarkdown) (ptrTo [(tagged, ArrayV [StringV ''a''])]) [] =
   Ret False (Some (ErrInvalidType ''expect string slice'')) (ptrTo [(tagged, ArrayV [StringV ''a''])])"
  by code_simp

text \<open>
  Claim C4. Each of the four entry points returns \<open>(false, nil)\<close> on the nil interface
  and on a typed nil pointer, and \<open>(false, ErrInvalidType)\<close> on every input that is
  not a pointer (a struct passed by value, a string, a slice, ...) and on every pointer
  to something that is not a struct; the input is left as it was.
\<close>

theorem entry_contract:
  "\<forall>ep \<in> set (entryPoints c).
     ep None opts = Ret False None None \<and>
     ep (Some (PtrV None)) opts = Ret False None (Some (PtrV None)) \<and>
     (Kind (ValueOf (Some x)) \<noteq> Ptr \<longrightarrow>
        ep (Some x) opts = Ret False (Some (ErrInvalidType ''expect pointer to struct'')) (Some x)) \<and>
     (Kind (ValueOf (Some x)) \<noteq> Struct \<longrightarrow>
        ep (Some (PtrV (Some x))) opts =
          Ret False (Some (ErrInvalidType ''expect struct'')) (Some (PtrV (Some x))))"
proof -
  have nil: "process c None a vo opts = Ret False None None" for a vo
    by (simp add: process_def ValueOf_def)
  have typed_nil: "process c (Some (PtrV None)) a vo opts = Ret False None (Some (PtrV None))" for a vo
    by (simp add: process_def ValueOf_def isValidSettable_def)
  have by_value: "process c (Some x) a vo opts =
      Ret False (Some (ErrInvalidType ''expect pointer to struct'')) (Some x)"
    if "Kind (ValueOf (Some x)) \<noteq> Ptr" for a vo
    using that by (simp add: process_def ValueOf_def)
  have no_struct: "process c (Some (PtrV (Some x))) a vo opts =
      Ret False (Some (ErrInvalidType ''expect struct'')) (Some (PtrV (Some x)))"
    if "Kind (ValueOf (Some x)) \<noteq> Struct" for a vo
    using that
    by (cases x)
       (simp_all add: process_def ValueOf_def isValidSettable_def flagRO_def convertStruct.simps)
  show ?thesis
    by (simp add: entryPoints_def ConvertFields_def ConvertAllFields_def ValidateFields_def
        ValidateAllFields_def nil typed_nil by_value no_struct)
qed

theorem entry_contract_witness:
  "ConvertFields (WithMarkdown paragraphMarkdown) (Some (StructV [(tagged, StringV ''a'')])) [] =
     Ret False (Some (ErrInvalidType ''expect pointer to struct'')) (Some (StructV [(tagged, StringV ''a'')]))
   \<and> ValidateAllFields (WithMarkdown paragraphMarkdown) (Some (StringV ''a'')) [] =
     Ret False (Some (ErrInvalidType ''expect pointer to struct'')) (Some (StringV ''a''))
   \<and> ConvertFields (WithMarkdown paragraphMarkdown) (Some (PtrV (Some (StringV ''a'')))) [] =
     Ret False (Some (ErrInvalidType ''expect struct'')) (Some (PtrV (Some (StringV ''a''))))
   \<and> ConvertAllFields (WithMarkdown paragraphMarkdown) (Some (PtrV None)) [] =
     Ret False None (Some (PtrV None))
   \<and> ValidateFields (WithMarkdown paragraphMarkdown) None [] = Ret False None None"
  using entry_contract [of "WithMarkdown paragraphMarkdown" "[]" "StructV [(tagged, StringV ''a'')]"]
    entry_contract [of "WithMarkdown paragraphMarkdown" "[]" "StringV ''a''"]
  by (simp add: entryPoints_def ValueOf_def)

text \<open>
  Claim C5. For every input and every list of parse options, \<open>ValidateFields\<close> and
  \<open>ValidateAllFields\<close> return (they do not panic) and leave the input exactly as it
  was, at every nesting depth.
\<close>

theorem validate_leaves_record_unchanged:
  "left (ValidateFields c s opts) = Some s \<and> left (ValidateAllFields c s opts) = Some s"
proof -
  have "left (process c s allFields True opts) = Some s" for allFields
  proof (cases s)
    case None
    then show ?thesis by (simp add: process_def ValueOf_def)
  next
    case (Some x)
    let ?f = "(makeFieldProcessor c opts)\<lparr>ConvertAllFields := allFields, ValidateOnly := True\<rparr>"
    have vo: "ValidateOnly ?f" by simp
    show ?thesis
    proof (cases x)
      case (PtrV p)
      show ?thesis
      proof (cases p)
        case None
        with Some PtrV show ?thesis
          by (simp add: process_def ValueOf_def isValidSettable_def)
      next
        case (Some y)
        let ?elem = "Val \<lparr>flagAddr = True, flagStickyRO = False, flagEmbedRO = False\<rparr> y"
        from convertStruct_validate [OF vo, of ?elem]
        have "left (convertStruct ?f ?elem) = Some ?elem" .
        with \<open>s = Some x\<close> PtrV Some show ?thesis
          by (auto simp: process_def ValueOf_def isValidSettable_def split: outcome.splits)
      qed
    qed (simp_all add: Some process_def ValueOf_def)
  qed
  then show ?thesis by (simp add: ValidateFields_def ValidateAllFields_def)
qed

theorem validate_leaves_record_unchanged_witness:
  "left (ValidateFields (WithMarkdown paragraphMarkdown)
           (ptrTo [(tagged, StringV ''a''), (untagged, PtrV (Some (StructV [(tagged, SliceV [StringV ''b''])])))]) [])
     = Some (ptrTo [(tagged, StringV ''a''), (untagged, PtrV (Some (StructV [(tagged, SliceV [StringV ''b''])])))])
   \<and> returned (ValidateFields (WithMarkdown paragraphMarkdown)
           (ptrTo [(tagged, StringV ''a''), (untagged, PtrV (Some (StructV [(tagged, SliceV [StringV ''b''])])))]) [])
     = Some (True, None)"
proof -
  have "returned (ValidateFields (WithMarkdown paragraphMarkdown)
           (ptrTo [(tagged, StringV ''a''), (untagged, PtrV (Some (StructV [(tagged, SliceV [StringV ''b''])])))]) [])
     = Some (True, None)"
    by code_simp
  with validate_leaves_record_unchanged
    [of "WithMarkdown paragraphMarkdown"
        "ptrTo [(tagged, StringV ''a''), (untagged, PtrV (Some (StructV [(tagged, SliceV [StringV ''b''])])))]" "[]"]
  show ?thesis by simp
qed

text \<open>
  Claim C6: a validate-only call returns the pair of the converting call. For a map
  whose element type is a defined string type the converting call panics in
  \<^verbatim>\<open>SetMapIndex\<close>, where the validate-only call returns \<open>(true, nil)\<close>.
\<close>

theorem convert_panics_where_validate_returns:
  "ConvertFields (WithMarkdown paragraphMarkdown)
     (ptrTo [(tagged, StringMapV DefinedString [(IntKey 1, ''a'')])]) [] = Panic
   \<and> ValidateFields (WithMarkdown paragraphMarkdown)
     (ptrTo [(tagged, StringMapV DefinedString [(IntKey 1, ''a'')])]) [] =
   Ret True None (ptrTo [(tagged, StringMapV DefinedString [(IntKey 1, ''a'')])])"
  by code_simp



text \<open>
  Claim C8. A settable text field whose text the renderer accepts is rendered; the
  reported flag is \<open>raw \<noteq> rendered\<close> in both modes, and the rendered text is stored
  only when the call is not validate-only. A text field that is not settable, as every
  unexported field is, gives \<open>(false, nil)\<close> and is left alone. \<open>convert\<close> hands every
  string to \<open>convertString\<close>.
\<close>

theorem convertString_settable:
  "(CanSet (Val fl (StringV raw)) \<and> renderString f raw = (rendered, None) \<longrightarrow>
      convertString f (Val fl (StringV raw)) =
        Ret (raw \<noteq> rendered) None (Val fl (StringV (if ValidateOnly f then raw else rendered))))
   \<and> (\<not> CanSet (Val fl (StringV raw)) \<longrightarrow>
      convertString f (Val fl (StringV raw)) = Ret False None (Val fl (StringV raw)))
   \<and> (\<not> Exported sf \<longrightarrow> \<not> CanSet (FieldOf fl (sf, StringV raw)))
   \<and> convert f (Val fl (StringV raw)) = convertString f (Val fl (StringV raw))"
  by (simp add: convertString_def isValidSettable_def convert_String FieldOf_def Field_flag_def
      flagRO_def)

theorem convertString_settable_witness:
  "convertString (makeFieldProcessor (WithMarkdown paragraphMarkdown) [])
     (Val \<lparr>flagAddr = True, flagStickyRO = False, flagEmbedRO = False\<rparr> (StringV ''_mine_'')) =
   Ret True None
     (Val \<lparr>flagAddr = True, flagStickyRO = False, flagEmbedRO = False\<rparr> (StringV ''<p>_mine_</p>''))
   \<and> convertString (makeFieldProcessor (WithMarkdown paragraphMarkdown) [])
     (Val \<lparr>flagAddr = True, flagStickyRO = True, flagEmbedRO = False\<rparr> (StringV ''_mine_'')) =
   Ret False None
     (Val \<lparr>flagAddr = True, flagStickyRO = True, flagEmbedRO = False\<rparr> (StringV ''_mine_''))
   \<and> \<not> CanSet (FieldOf \<lparr>flagAddr = True, flagStickyRO = False, flagEmbedRO = False\<rparr>
                 (unexported, StringV ''_mine_''))"
  using convertString_settable
    [of "\<lparr>flagAddr = True, flagStickyRO = False, flagEmbedRO = False\<rparr>" "''_mine_''"
        "makeFieldProcessor (WithMarkdown paragraphMarkdown) []" "''<p>_mine_</p>''" unexported]
    convertString_settable
    [of "\<lparr>flagAddr = True, flagStickyRO = True, flagEmbedRO = False\<rparr>" "''_mine_''"
        "makeFieldProcessor (WithMarkdown paragraphMarkdown) []" "[]"]
  by (simp add: flagRO_def renderString_def writeMarkdown_def makeFieldProcessor_def
      WithMarkdown_def paragraphMarkdown_def unexported_def)

text \<open>
  Claim C9. A field is enabled iff the value of its \<^verbatim>\<open>markdown\<close> tag, in lower case, is
  one of \<^verbatim>\<open>on\<close>, \<^verbatim>\<open>yes\<close>, \<^verbatim>\<open>1\<close>, \<^verbatim>\<open>y\<close>, \<^verbatim>\<open>enable\<close>, both for the tag alone
  (\<open>isMarkdownTagEnabled\<close>) and for a field of a struct (\<open>isStructFieldTagEnabled\<close>);
  a tag without that key is disabled. In the struct loop a field with an enabling
  value is visited whatever the policy, and under the tagged-only policy a field with
  any other value that is not a record is skipped: the loop goes on with the fields
  after it and leaves it as it was.
\<close>

theorem tag_enabled_iff:
  "(isMarkdownTagEnabled tag \<longleftrightarrow>
      ToLower (Get tag structTagKey) \<in> {''on'', ''yes'', ''1'', ''y'', ''enable''})
   \<and> (map_of tag structTagKey = None \<longrightarrow> \<not> isMarkdownTagEnabled tag)
   \<and> (Kind v = Struct \<longrightarrow>
        (isStructFieldTagEnabled v fld \<longleftrightarrow>
           ToLower (Get (Tag (fst fld)) structTagKey) \<in> {''on'', ''yes'', ''1'', ''y'', ''enable''}))
   \<and> (Kind v = Struct
        \<and> ToLower (Get (Tag (fst fld)) structTagKey) \<in> {''on'', ''yes'', ''1'', ''y'', ''enable''} \<longrightarrow>
      convertStruct_loop f v (fld # rest) changed err =
        (case convert f (FieldOf (flag_of v) fld) of
           Panic \<Rightarrow> Panic
         | Ret fchanged err' field' \<Rightarrow>
             if err' \<noteq> None
             then Ret (fchanged \<or> changed) err' ((fst fld, store field' (snd fld)) # rest)
             else case convertStruct_loop f v rest (fchanged \<or> changed) err' of
                    Panic \<Rightarrow> Panic
                  | Ret c e rest' \<Rightarrow> Ret c e ((fst fld, store field' (snd fld)) # rest')))
   \<and> (\<not> isStruct (FieldOf (flag_of v) fld) \<and> \<not> fieldProcessor.ConvertAllFields f
        \<and> \<not> isMarkdownTagEnabled (Tag (fst fld)) \<longrightarrow>
      convertStruct_loop f v (fld # rest) changed err =
        (case convertStruct_loop f v rest changed err of
           Panic \<Rightarrow> Panic
         | Ret c e rest' \<Rightarrow> Ret c e (fld # rest')))
   \<and> (\<not> isStruct (FieldOf (flag_of v) fld) \<and> \<not> fieldProcessor.ConvertAllFields f
        \<and> ToLower (Get (Tag (fst fld)) structTagKey) \<notin> {''on'', ''yes'', ''1'', ''y'', ''enable''} \<longrightarrow>
      convertStruct_loop f v (fld # rest) changed err =
        (case convertStruct_loop f v rest changed err of
           Panic \<Rightarrow> Panic
         | Ret c e rest' \<Rightarrow> Ret c e (fld # rest')))"
proof -
  let ?on = "ToLower (Get (Tag (fst fld)) structTagKey) \<in> {''on'', ''yes'', ''1'', ''y'', ''enable''}"
  have tag: "isMarkdownTagEnabled t \<longleftrightarrow>
      ToLower (Get t structTagKey) \<in> {''on'', ''yes'', ''1'', ''y'', ''enable''}" for t
    by (simp add: isMarkdownTagEnabled_def Let_def)
  have absent: "\<not> isMarkdownTagEnabled tag" if "map_of tag structTagKey = None"
    using that by (simp add: isMarkdownTagEnabled_def Let_def Get_def ToLower_def)
  have field: "isStructFieldTagEnabled v fld \<longleftrightarrow> ?on" if "Kind v = Struct"
    using that by (simp add: isStructFieldTagEnabled_def tag)
  have visit: "convertStruct_loop f v (fld # rest) changed err =
        (case convert f (FieldOf (flag_of v) fld) of
           Panic \<Rightarrow> Panic
         | Ret fchanged err' field' \<Rightarrow>
             if err' \<noteq> None
             then Ret (fchanged \<or> changed) err' ((fst fld, store field' (snd fld)) # rest)
             else case convertStruct_loop f v rest (fchanged \<or> changed) err' of
                    Panic \<Rightarrow> Panic
                  | Ret c e rest' \<Rightarrow> Ret c e ((fst fld, store field' (snd fld)) # rest'))"
    if "Kind v = Struct" and ?on
  proof (rule convertStruct_loop_visit)
    from that field show "isStruct (FieldOf (flag_of v) fld) \<or> fieldProcessor.ConvertAllFields f
             \<or> isStructFieldTagEnabled v fld"
      by simp
  qed
  have skip: "convertStruct_loop f v (fld # rest) changed err =
        (case convertStruct_loop f v rest changed err of
           Panic \<Rightarrow> Panic
         | Ret c e rest' \<Rightarrow> Ret c e (fld # rest'))"
    if "\<not> isStruct (FieldOf (flag_of v) fld)" "\<not> fieldProcessor.ConvertAllFields f"
       "\<not> isMarkdownTagEnabled (Tag (fst fld))"
    using that by (simp add: isStructFieldTagEnabled_def)
  show ?thesis
    using tag [of tag] absent field visit skip tag [of "Tag (fst fld)"]
    by (intro conjI impI) blast+
qed

theorem tag_enabled_iff_witness:
  "isMarkdownTagEnabled [(''json'', ''body''), (''markdown'', ''Yes'')]
   \<and> \<not> isMarkdownTagEnabled [(''markdown'', ''off'')]
   \<and> \<not> isMarkdownTagEnabled [(''json'', ''on'')]
   \<and> isStructFieldTagEnabled
         (Val \<lparr>flagAddr = True, flagStickyRO = False, flagEmbedRO = False\<rparr> (StructV []))
         (tagged, StringV ''a'')
   \<and> convertStruct_loop (makeFieldProcessor (WithMarkdown paragraphMarkdown) [])
         (Val \<lparr>flagAddr = True, flagStickyRO = False, flagEmbedRO = False\<rparr> (StructV []))
         [(tagged, StringV ''a'')] False None =
       Ret True None [(tagged, StringV ''<p>a</p>'')]
   \<and> convertStruct_loop (makeFieldProcessor (WithMarkdown paragraphMarkdown) [])
         (Val \<lparr>flagAddr = True, flagStickyRO = False, flagEmbedRO = False\<rparr> (StructV []))
         [(untagged, StringV ''a'')] False None =
       Ret False None [(untagged, StringV ''a'')]"
proof -
  let ?f = "makeFieldProcessor (WithMarkdown paragraphMarkdown) []"
  let ?v = "Val \<lparr>flagAddr = True, flagStickyRO = False, flagEmbedRO = False\<rparr> (StructV [])"
  have conv: "convert ?f (FieldOf (flag_of ?v) (tagged, StringV ''a'')) =
      Ret True None (FieldOf (flag_of ?v) (tagged, StringV ''<p>a</p>''))"
    by (simp add: convert_String convertString_def isValidSettable_def FieldOf_def Field_flag_def
        flagRO_def tagged_def renderString_def writeMarkdown_def makeFieldProcessor_def
        WithMarkdown_def paragraphMarkdown_def)
  have low: "ToLower (Get (Tag (fst (tagged, StringV ''a''))) structTagKey) = ''on''"
    by (simp add: Get_def structTagKey_def ToLower_def toLowerByte_def tagged_def)
  from tag_enabled_iff [of "[(''json'', ''body''), (''markdown'', ''Yes'')]"]
    tag_enabled_iff [of "[(''markdown'', ''off'')]"]
    tag_enabled_iff [of "Tag untagged"]
    tag_enabled_iff [of "[(''json'', ''on'')]" ?v "(untagged, StringV ''a'')" ?f "[]" False None]
    tag_enabled_iff [of "[]" ?v "(tagged, StringV ''a'')" ?f "[]" False None]
    conv low
  show ?thesis
    by (simp add: Get_def structTagKey_def ToLower_def toLowerByte_def untagged_def
        makeFieldProcessor_def isStruct_def FieldOf_def
        del: convertStruct_loop.simps(2))
qed

text \<open>
  Claim C10. A field that holds a value behind any number of non-nil pointers is
  converted as the field holding the value itself would be: same flag, same error, and
  the value behind the pointers ends up as the value held directly would. Every value
  reached from an entry point is addressable, which is the hypothesis.
\<close>

theorem pointer_chain_transparent:
  "flagAddr fl \<Longrightarrow>
   convert f (FieldOf fl (sf, pointerChain n x)) =
     (case convert f (FieldOf fl (sf, x)) of
        Panic \<Rightarrow> Panic
      | Ret changed err v' \<Rightarrow> Ret changed err (FieldOf fl (sf, pointerChain n (store v' x))))"
proof -
  assume addr: "flagAddr fl"
  let ?fl = "Field_flag fl sf"
  have fl: "?fl\<lparr>flagAddr := True\<rparr> = ?fl"
    using addr by (simp add: Field_flag_def)
  have "convert f (Val ?fl (pointerChain n x)) =
     (case convert f (Val ?fl x) of
        Panic \<Rightarrow> Panic
      | Ret changed err v' \<Rightarrow> Ret changed err (Val ?fl (pointerChain n (store v' x))))"
  proof (induction n)
    case 0
    show ?case by (auto split: outcome.splits dest: store_handle)
  next
    case (Suc n)
    show ?case by (simp add: convert_Ptr fl Suc.IH split: outcome.splits)
  qed
  then show ?thesis by (simp add: FieldOf_def split: outcome.splits)
qed

theorem pointer_chain_transparent_witness:
  "convert (makeFieldProcessor (WithMarkdown paragraphMarkdown) [])
     (FieldOf \<lparr>flagAddr = True, flagStickyRO = False, flagEmbedRO = False\<rparr>
        (tagged, PtrV (Some (PtrV (Some (StringV ''x'')))))) =
   Ret True None
     (FieldOf \<lparr>flagAddr = True, flagStickyRO = False, flagEmbedRO = False\<rparr>
        (tagged, PtrV (Some (PtrV (Some (StringV ''<p>x</p>''))))))"
proof -
  have "convert (makeFieldProcessor (WithMarkdown paragraphMarkdown) [])
     (FieldOf \<lparr>flagAddr = True, flagStickyRO = False, flagEmbedRO = False\<rparr>
        (tagged, StringV ''x'')) =
   Ret True None
     (FieldOf \<lparr>flagAddr = True, flagStickyRO = False, flagEmbedRO = False\<rparr>
        (tagged, StringV ''<p>x</p>''))"
    by code_simp
  with pointer_chain_transparent
    [of "\<lparr>flagAddr = True, flagStickyRO = False, flagEmbedRO = False\<rparr>"
        "(makeFieldProcessor (WithMarkdown paragraphMarkdown) [])"
        tagged "Suc (Suc 0)" "StringV ''x''"]
  show ?thesis by (simp add: FieldOf_def)
qed

end
